theory Spec2Isabelle
  imports Complex_Main "HOL-Library.Char_ord" "HOL-Library.List_Lexorder" "HOL-Library.Word"
begin

section \<open>The daily counter of \<open>src/App.tsx\<close>\<close>

subsection \<open>Data model\<close>

text \<open>
  \<^verbatim>\<open>interface TrackerData { count: number; date: string; // YYYY-MM-DD }\<close>

  A count is a JavaScript number, an IEEE-754 double. The data model of the
  specification makes it an integer, and the model keeps the integer the double stands
  for. A date is a string, compared by its code units; the characters of
  \<^typ>\<open>string\<close> stand for the code units below 256.
\<close>

record TrackerData =
  count :: int
  date :: string

subsection \<open>Addition of numbers\<close>

text \<open>
  \<open>a + b\<close> on doubles is the exact sum rounded to the nearest double, a tie going to
  the double with the even significand. A double has 53 significant bits: every
  integer up to \<open>2^53 = 9007199254740992\<close> in magnitude is a double, and a larger
  integer is rounded to a multiple of \<open>2^e\<close>, where \<open>e\<close> is the number of its bits
  above 53. (A sum beyond the largest double, about \<open>1.8e308\<close>, is \<open>Infinity\<close>, which
  the integers do not have; no statement below reaches it.)
\<close>

fun bit_length :: "nat \<Rightarrow> nat" where
  "bit_length n = (if n = 0 then 0 else Suc (bit_length (n div 2)))"

declare bit_length.simps [simp del]

definition round_double :: "int \<Rightarrow> int" where
  "round_double x =
     (if \<bar>x\<bar> \<le> 9007199254740992 then x
      else
        let a = nat \<bar>x\<bar>;
            e = bit_length a - 53;
            q = a div 2 ^ e;
            r = a mod 2 ^ e;
            up = (2 ^ e < 2 * r \<or> (2 * r = 2 ^ e \<and> odd q));
            m = (if up then q + 1 else q) * 2 ^ e
        in if x < 0 then - int m else int m)"

definition js_add :: "int \<Rightarrow> int \<Rightarrow> int" where
  "js_add a b = round_double (a + b)"

subsection \<open>The store operations\<close>

text \<open>
  The state updater of the ensure-today effect (lines 60--67):
  \<^verbatim>\<open>
  const hasTodayEntry = currentHistory.some(entry => entry.date === todayDate);
  if (!hasTodayEntry) { return [{ date: todayDate, count: 0 }, ...currentHistory]; }
  return currentHistory;
  \<close>
\<close>

definition ensureToday :: "string \<Rightarrow> TrackerData list \<Rightarrow> TrackerData list" where
  "ensureToday todayDate currentHistory =
     (let hasTodayEntry = list_ex (\<lambda>entry. date entry = todayDate) currentHistory
      in if \<not> hasTodayEntry
         then \<lparr>count = 0, date = todayDate\<rparr> # currentHistory
         else currentHistory)"

text \<open>The effect around it does nothing before the component is mounted on the client.\<close>

definition ensureTodayEffect :: "bool \<Rightarrow> string \<Rightarrow> TrackerData list \<Rightarrow> TrackerData list" where
  "ensureTodayEffect isClient todayDate history =
     (if \<not> isClient then history else ensureToday todayDate history)"

text \<open>
  \<^verbatim>\<open>
  currentHistory.map(entry =>
    entry.date === todayDate ? { ...entry, count: entry.count + 1 } : entry)
  \<close>
\<close>

definition incrementCount :: "string \<Rightarrow> TrackerData list \<Rightarrow> TrackerData list" where
  "incrementCount todayDate currentHistory =
     map (\<lambda>entry. if date entry = todayDate then entry\<lparr>count := js_add (count entry) 1\<rparr> else entry)
       currentHistory"

text \<open>
  \<open>resetCount\<close> asks \<open>window.confirm\<close> first; the answer is the first argument.
  \<^verbatim>\<open>
  if (window.confirm('Are you sure you want to reset your count for today?')) {
    setHistory(currentHistory => currentHistory.map(entry =>
      entry.date === todayDate ? { ...entry, count: 0 } : entry)); }
  \<close>
\<close>

definition resetCount :: "bool \<Rightarrow> string \<Rightarrow> TrackerData list \<Rightarrow> TrackerData list" where
  "resetCount confirm todayDate currentHistory =
     (if confirm
      then map (\<lambda>entry. if date entry = todayDate then entry\<lparr>count := 0\<rparr> else entry)
             currentHistory
      else currentHistory)"

text \<open>The invariants of a history: at most one record per date, no negative count.\<close>

definition history_inv :: "TrackerData list \<Rightarrow> bool" where
  "history_inv H = (distinct (map date H) \<and> list_all (\<lambda>entry. 0 \<le> count entry) H)"

subsection \<open>The statistics\<close>

text \<open>
  \<open>summaryStats\<close> reads the clock and computes with \<open>Date\<close>, whose methods work in the
  local time zone of the platform. They belong to the platform, not to the repository,
  and the model takes them as they are given: \<open>newDate\<close> is what \<open>new Date()\<close> returns,
  and \<open>getDate\<close>, \<open>setDate\<close> and \<open>toLocaleDateString\<close> (for \<open>'en-CA'\<close>) are the
  three methods the program calls. \<open>setDate\<close> changes the object; the model returns the
  changed one.
\<close>

record 'd DateAPI =
  newDate :: "'d"
  getDate :: "'d \<Rightarrow> int"
  setDate :: "'d \<Rightarrow> int \<Rightarrow> 'd"
  toLocaleDateString :: "'d \<Rightarrow> string"

text \<open>
  \<^verbatim>\<open>
  const sevenDaysAgo = new Date();
  sevenDaysAgo.setDate(sevenDaysAgo.getDate() - 6); // Including today, so 6 days back
  const sevenDaysAgoStr = sevenDaysAgo.toLocaleDateString('en-CA');
  \<close>
\<close>

definition sevenDaysAgoStr :: "'d DateAPI \<Rightarrow> string" where
  "sevenDaysAgoStr Date =
     (let sevenDaysAgo = newDate Date;
          sevenDaysAgo = setDate Date sevenDaysAgo (getDate Date sevenDaysAgo - 6)
      in toLocaleDateString Date sevenDaysAgo)"

text \<open>
  \<open>bestDay\<close> is the literal \<open>{ count: 0 }\<close>, which has no date, for the empty history,
  and a \<open>TrackerData\<close> otherwise.
\<close>

datatype BestDay = CountOnly int | Entry TrackerData

fun bestDay_count :: "BestDay \<Rightarrow> int" where
  "bestDay_count (CountOnly c) = c"
| "bestDay_count (Entry entry) = count entry"

record SummaryStats =
  total :: int
  last7DaysTotal :: int
  bestDay :: BestDay

text \<open>
  \<^verbatim>\<open>
  if (history.length === 0) {
    return { total: 0, last7DaysTotal: 0, bestDay: { count: 0 } };
  }
  const total = history.reduce((sum, entry) => sum + entry.count, 0);
  const sevenDaysAgo = ...; const sevenDaysAgoStr = ...;   // as above
  const last7DaysTotal = history
    .filter(entry => entry.date >= sevenDaysAgoStr)
    .reduce((sum, entry) => sum + entry.count, 0);
  const bestDay = history.reduce((max, entry) => entry.count > max.count ? entry : max,
    { count: 0, date: ''});
  return { total, last7DaysTotal, bestDay };
  \<close>
\<close>

definition summaryStats :: "'d DateAPI \<Rightarrow> TrackerData list \<Rightarrow> SummaryStats" where
  "summaryStats Date history =
     (if length history = 0
      then \<lparr>total = 0, last7DaysTotal = 0, bestDay = CountOnly 0\<rparr>
      else
        let total = foldl (\<lambda>sum entry. js_add sum (count entry)) 0 history;
            last7DaysTotal =
              foldl (\<lambda>sum entry. js_add sum (count entry)) 0
                (filter (\<lambda>entry. date entry \<ge> sevenDaysAgoStr Date) history);
            bestDay =
              foldl (\<lambda>max entry. if count entry > count max then entry else max)
                \<lparr>count = 0, date = []\<rparr> history
        in \<lparr>total = total, last7DaysTotal = last7DaysTotal, bestDay = Entry bestDay\<rparr>)"

subsection \<open>Decimal digits\<close>

text \<open>Decimal digits, most significant first.\<close>

definition digit_char :: "nat \<Rightarrow> char" where
  "digit_char n = ''0123456789'' ! (n mod 10)"

fun decimal :: "nat \<Rightarrow> string" where
  "decimal n = (if n < 10 then [digit_char n] else decimal (n div 10) @ [digit_char n])"

declare decimal.simps [simp del]

text \<open>Digit strings of a fixed width.\<close>

fun fixed_digits :: "nat \<Rightarrow> nat \<Rightarrow> string" where
  "fixed_digits 0 n = []"
| "fixed_digits (Suc k) n = fixed_digits k (n div 10) @ [digit_char n]"

subsection \<open>JSON values and \<open>JSON.parse\<close>\<close>

text \<open>
  The persisted value is a JSON text. \<open>JSON.parse\<close> and \<open>JSON.stringify\<close> belong to the
  platform, not to the repository; they are modelled after ECMA-262. What
  \<open>JSON.parse\<close> returns is untyped, so it is a value of \<open>json\<close>. A JavaScript string
  is a sequence of 16-bit code units: the text handed to the parser is a
  \<^typ>\<open>string\<close> (code units below 256), and an escape \<open>\uXXXX\<close> in it denotes any code
  unit. A number is kept as the exact rational its literal denotes (JavaScript rounds it
  to a double; on the integers the program stores the two agree). An object is the list
  of its members in the order of the text, a repeated key keeping its first place and
  taking its last value.
\<close>

type_synonym jsstring = "16 word list"

datatype json =
    JNull
  | JBool bool
  | JNum rat
  | JStr jsstring
  | JArr "json list"
  | JObj "(jsstring \<times> json) list"

text \<open>
  A parser returns the value and the rest of the text, or fails as \<open>JSON.parse\<close> does
  with a \<open>SyntaxError\<close>. The recursion on nested values is bounded by a fuel argument;
  \<open>OutOfFuel\<close> is kept apart from \<open>SyntaxError\<close>.
\<close>

datatype 'a parsed = Parsed 'a string | SyntaxError | OutOfFuel

definition is_ws :: "char \<Rightarrow> bool" where
  "is_ws c = (c = CHR '' '' \<or> c = CHR 0x09 \<or> c = CHR 0x0A \<or> c = CHR 0x0D)"

fun skip_ws :: "string \<Rightarrow> string" where
  "skip_ws [] = []"
| "skip_ws (c # cs) = (if is_ws c then skip_ws cs else c # cs)"

definition is_digit :: "char \<Rightarrow> bool" where
  "is_digit c = (CHR ''0'' \<le> c \<and> c \<le> CHR ''9'')"

definition digit_val :: "char \<Rightarrow> nat" where
  "digit_val c = of_char c - 48"

definition hex_val :: "char \<Rightarrow> nat option" where
  "hex_val c =
     (if is_digit c then Some (digit_val c)
      else if CHR ''a'' \<le> c \<and> c \<le> CHR ''f'' then Some (of_char c - 87)
      else if CHR ''A'' \<le> c \<and> c \<le> CHR ''F'' then Some (of_char c - 55)
      else None)"

definition hex4 :: "char \<Rightarrow> char \<Rightarrow> char \<Rightarrow> char \<Rightarrow> 16 word option" where
  "hex4 a b c d =
     (case (hex_val a, hex_val b, hex_val c, hex_val d) of
        (Some x, Some y, Some z, Some w) \<Rightarrow> Some (of_nat (((x * 16 + y) * 16 + z) * 16 + w))
      | _ \<Rightarrow> None)"

definition unescape :: "char \<Rightarrow> 16 word option" where
  "unescape e =
     (if e = CHR 0x22 then Some 0x22
      else if e = CHR 0x5C then Some 0x5C
      else if e = CHR ''/'' then Some 0x2F
      else if e = CHR ''b'' then Some 0x08
      else if e = CHR ''f'' then Some 0x0C
      else if e = CHR ''n'' then Some 0x0A
      else if e = CHR ''r'' then Some 0x0D
      else if e = CHR ''t'' then Some 0x09
      else None)"

text \<open>The characters of a string literal after its opening quote, up to the closing one.\<close>

fun parse_chars :: "string \<Rightarrow> (jsstring \<times> string) option" where
  "parse_chars [] = None"
| "parse_chars (c # cs) =
     (if c = CHR 0x22 then Some ([], cs)
      else if c = CHR 0x5C then
        (case cs of
           [] \<Rightarrow> None
         | e # r \<Rightarrow>
             if e = CHR ''u'' then
               (case r of
                  h1 # h2 # h3 # h4 # r' \<Rightarrow>
                    (case hex4 h1 h2 h3 h4 of
                       None \<Rightarrow> None
                     | Some w \<Rightarrow>
                         (case parse_chars r' of
                            None \<Rightarrow> None
                          | Some (ws, rest) \<Rightarrow> Some (w # ws, rest)))
                | _ \<Rightarrow> None)
             else
               (case unescape e of
                  None \<Rightarrow> None
                | Some w \<Rightarrow>
                    (case parse_chars r of
                       None \<Rightarrow> None
                     | Some (ws, rest) \<Rightarrow> Some (w # ws, rest))))
      else if (of_char c :: nat) < 0x20 then None
      else
        (case parse_chars cs of
           None \<Rightarrow> None
         | Some (ws, rest) \<Rightarrow> Some (of_char c # ws, rest)))"

text \<open>
  A number literal: an optional minus, an integer part without a leading zero, an
  optional fraction (a point and digits) and an optional exponent (\<open>e\<close> or \<open>E\<close>, a
  sign, digits).
\<close>

definition digits_val :: "string \<Rightarrow> nat" where
  "digits_val ds = foldl (\<lambda>a c. 10 * a + digit_val c) 0 ds"

definition parse_fraction :: "string \<Rightarrow> (rat \<times> string) option" where
  "parse_fraction s =
     (case s of
        [] \<Rightarrow> Some (0, s)
      | c # r \<Rightarrow>
          if c = CHR ''.'' then
            (let fp = takeWhile is_digit r
             in if fp = [] then None
                else Some (of_nat (digits_val fp) / 10 ^ length fp, dropWhile is_digit r))
          else Some (0, s))"

definition parse_exponent :: "string \<Rightarrow> (int \<times> string) option" where
  "parse_exponent s =
     (case s of
        [] \<Rightarrow> Some (0, s)
      | c # r \<Rightarrow>
          if c = CHR ''e'' \<or> c = CHR ''E'' then
            (let negative = (r \<noteq> [] \<and> hd r = CHR ''-'');
                 r' = (if r \<noteq> [] \<and> (hd r = CHR ''-'' \<or> hd r = CHR ''+'') then tl r else r);
                 ep = takeWhile is_digit r'
             in if ep = [] then None
                else Some (if negative then - int (digits_val ep) else int (digits_val ep),
                           dropWhile is_digit r'))
          else Some (0, s))"

definition parse_number :: "string \<Rightarrow> (rat \<times> string) option" where
  "parse_number s =
     (let neg = (s \<noteq> [] \<and> hd s = CHR ''-'');
          s1 = (if neg then tl s else s);
          ip = takeWhile is_digit s1
      in if ip = [] \<or> (hd ip = CHR ''0'' \<and> 1 < length ip) then None
         else
           (case parse_fraction (dropWhile is_digit s1) of
              None \<Rightarrow> None
            | Some (f, s2) \<Rightarrow>
                (case parse_exponent s2 of
                   None \<Rightarrow> None
                 | Some (e, s3) \<Rightarrow>
                     let mantissa = of_nat (digits_val ip) + f;
                         scaled = (if e < 0 then mantissa / 10 ^ nat (- e)
                                   else mantissa * 10 ^ nat e)
                     in Some (if neg then - scaled else scaled, s3))))"

fun strip_prefix :: "string \<Rightarrow> string \<Rightarrow> string option" where
  "strip_prefix [] s = Some s"
| "strip_prefix (p # ps) [] = None"
| "strip_prefix (p # ps) (c # cs) = (if p = c then strip_prefix ps cs else None)"

fun obj_put :: "(jsstring \<times> json) list \<Rightarrow> jsstring \<Rightarrow> json \<Rightarrow> (jsstring \<times> json) list" where
  "obj_put [] k v = [(k, v)]"
| "obj_put ((k', v') # ms) k v = (if k' = k then (k', v) # ms else (k', v') # obj_put ms k v)"

definition make_object :: "(jsstring \<times> json) list \<Rightarrow> json" where
  "make_object ms = JObj (foldl (\<lambda>acc (k, v). obj_put acc k v) [] ms)"

text \<open>
  A value, the elements of an array after its opening bracket, and the members of an
  object after its opening brace.
\<close>

fun parse_value :: "nat \<Rightarrow> string \<Rightarrow> json parsed"
  and parse_elements :: "nat \<Rightarrow> string \<Rightarrow> json list parsed"
  and parse_members :: "nat \<Rightarrow> string \<Rightarrow> (jsstring \<times> json) list parsed"
where
  "parse_value 0 s = OutOfFuel"
| "parse_value (Suc n) s =
     (case skip_ws s of
        [] \<Rightarrow> SyntaxError
      | c # cs \<Rightarrow>
          if c = CHR ''['' then
            (case skip_ws cs of
               [] \<Rightarrow> SyntaxError
             | d # r \<Rightarrow>
                 if d = CHR '']'' then Parsed (JArr []) r
                 else
                   (case parse_elements n cs of
                      Parsed vs rest \<Rightarrow> Parsed (JArr vs) rest
                    | SyntaxError \<Rightarrow> SyntaxError
                    | OutOfFuel \<Rightarrow> OutOfFuel))
          else if c = CHR ''{'' then
            (case skip_ws cs of
               [] \<Rightarrow> SyntaxError
             | d # r \<Rightarrow>
                 if d = CHR ''}'' then Parsed (JObj []) r
                 else
                   (case parse_members n cs of
                      Parsed ms rest \<Rightarrow> Parsed (make_object ms) rest
                    | SyntaxError \<Rightarrow> SyntaxError
                    | OutOfFuel \<Rightarrow> OutOfFuel))
          else if c = CHR 0x22 then
            (case parse_chars cs of
               None \<Rightarrow> SyntaxError
             | Some (ws, rest) \<Rightarrow> Parsed (JStr ws) rest)
          else if c = CHR ''-'' \<or> is_digit c then
            (case parse_number (c # cs) of
               None \<Rightarrow> SyntaxError
             | Some (x, rest) \<Rightarrow> Parsed (JNum x) rest)
          else if c = CHR ''t'' then
            (case strip_prefix ''rue'' cs of
               None \<Rightarrow> SyntaxError
             | Some rest \<Rightarrow> Parsed (JBool True) rest)
          else if c = CHR ''f'' then
            (case strip_prefix ''alse'' cs of
               None \<Rightarrow> SyntaxError
             | Some rest \<Rightarrow> Parsed (JBool False) rest)
          else if c = CHR ''n'' then
            (case strip_prefix ''ull'' cs of
               None \<Rightarrow> SyntaxError
             | Some rest \<Rightarrow> Parsed JNull rest)
          else SyntaxError)"
| "parse_elements 0 s = OutOfFuel"
| "parse_elements (Suc n) s =
     (case parse_value n s of
        Parsed v r \<Rightarrow>
          (case skip_ws r of
             [] \<Rightarrow> SyntaxError
           | c # r' \<Rightarrow>
               if c = CHR '','' then
                 (case parse_elements n r' of
                    Parsed vs rest \<Rightarrow> Parsed (v # vs) rest
                  | SyntaxError \<Rightarrow> SyntaxError
                  | OutOfFuel \<Rightarrow> OutOfFuel)
               else if c = CHR '']'' then Parsed [v] r'
               else SyntaxError)
      | SyntaxError \<Rightarrow> SyntaxError
      | OutOfFuel \<Rightarrow> OutOfFuel)"
| "parse_members 0 s = OutOfFuel"
| "parse_members (Suc n) s =
     (case skip_ws s of
        [] \<Rightarrow> SyntaxError
      | q # s1 \<Rightarrow>
          if q \<noteq> CHR 0x22 then SyntaxError
          else
            (case parse_chars s1 of
               None \<Rightarrow> SyntaxError
             | Some (k, s2) \<Rightarrow>
                 (case skip_ws s2 of
                    [] \<Rightarrow> SyntaxError
                  | colon # s3 \<Rightarrow>
                      if colon \<noteq> CHR '':'' then SyntaxError
                      else
                        (case parse_value n s3 of
                           Parsed v r \<Rightarrow>
                             (case skip_ws r of
                                [] \<Rightarrow> SyntaxError
                              | c # r' \<Rightarrow>
                                  if c = CHR '','' then
                                    (case parse_members n r' of
                                       Parsed ms rest \<Rightarrow> Parsed ((k, v) # ms) rest
                                     | SyntaxError \<Rightarrow> SyntaxError
                                     | OutOfFuel \<Rightarrow> OutOfFuel)
                                  else if c = CHR ''}'' then Parsed [(k, v)] r'
                                  else SyntaxError)
                         | SyntaxError \<Rightarrow> SyntaxError
                         | OutOfFuel \<Rightarrow> OutOfFuel))))"

declare parse_value.simps [simp del] parse_elements.simps [simp del] parse_members.simps [simp del]

text \<open>
  \<open>JSON.parse(text)\<close>: one value, with white space around it and nothing else; \<open>None\<close>
  stands for the \<open>SyntaxError\<close> it throws. The fuel \<open>2 * length text + 1\<close> is never used
  up (\<open>parse_value_fuel\<close> below).
\<close>

definition JSON_parse :: "string \<Rightarrow> json option" where
  "JSON_parse text =
     (case parse_value (2 * length text + 1) text of
        Parsed v rest \<Rightarrow> if skip_ws rest = [] then Some v else None
      | SyntaxError \<Rightarrow> None
      | OutOfFuel \<Rightarrow> None)"

subsection \<open>\<open>JSON.stringify\<close> of a history\<close>

text \<open>
  \<open>JSON.stringify(history)\<close> at the type the program calls it with, \<open>TrackerData[]\<close>: no
  white space, the keys of a record in the order the program creates them
  (\<open>{ date: todayDate, count: 0 }\<close>; the spread in the two updates keeps that order), a
  count in decimal digits (what JavaScript prints for an integer below \<open>10^21\<close>), a
  string quoted with the escapes of \<open>QuoteJSONString\<close>.
\<close>

definition hex_digit :: "nat \<Rightarrow> char" where
  "hex_digit n = ''0123456789abcdef'' ! (n mod 16)"

definition escape_char :: "char \<Rightarrow> string" where
  "escape_char c =
     (if c = CHR 0x08 then [CHR 0x5C, CHR ''b'']
      else if c = CHR 0x09 then [CHR 0x5C, CHR ''t'']
      else if c = CHR 0x0A then [CHR 0x5C, CHR ''n'']
      else if c = CHR 0x0C then [CHR 0x5C, CHR ''f'']
      else if c = CHR 0x0D then [CHR 0x5C, CHR ''r'']
      else if c = CHR 0x22 then [CHR 0x5C, CHR 0x22]
      else if c = CHR 0x5C then [CHR 0x5C, CHR 0x5C]
      else if (of_char c :: nat) < 0x20
        then [CHR 0x5C, CHR ''u'', CHR ''0'', CHR ''0'',
              hex_digit (of_char c div 16), hex_digit (of_char c)]
      else [c])"

definition quote_string :: "string \<Rightarrow> string" where
  "quote_string s = CHR 0x22 # concat (map escape_char s) @ [CHR 0x22]"

definition number_to_string :: "int \<Rightarrow> string" where
  "number_to_string i = (if i < 0 then CHR ''-'' # decimal (nat (- i)) else decimal (nat i))"

definition stringify_entry :: "TrackerData \<Rightarrow> string" where
  "stringify_entry entry =
     ''{'' @ quote_string ''date'' @ '':'' @ quote_string (date entry) @ '','' @
     quote_string ''count'' @ '':'' @ number_to_string (count entry) @ ''}''"

fun join_comma :: "string list \<Rightarrow> string" where
  "join_comma [] = []"
| "join_comma [x] = x"
| "join_comma (x # y # ys) = x @ '','' @ join_comma (y # ys)"

definition JSON_stringify :: "TrackerData list \<Rightarrow> string" where
  "JSON_stringify history = ''['' @ join_comma (map stringify_entry history) @ '']''"

text \<open>The JavaScript value of a record and of a history.\<close>

definition js :: "string \<Rightarrow> jsstring" where
  "js s = map of_char s"

definition entry_value :: "TrackerData \<Rightarrow> json" where
  "entry_value entry =
     JObj [(js ''date'', JStr (js (date entry))), (js ''count'', JNum (of_int (count entry)))]"

definition history_value :: "TrackerData list \<Rightarrow> json" where
  "history_value history = JArr (map entry_value history)"

subsection \<open>Persistence\<close>

text \<open>
  \<open>localStorage\<close> is a map from keys to strings; \<open>getItem\<close> of a missing key is \<open>null\<close>.
  The save effect (lines 71--74):
  \<^verbatim>\<open>
  if (!isClient || history.length === 0) return;
  localStorage.setItem('jobApplicationHistory', JSON.stringify(history));
  \<close>
  The load effect (lines 44--54); its result is the value given to \<open>setHistory\<close>, \<open>None\<close>
  when the effect returns before that:
  \<^verbatim>\<open>
  if (!isClient) return;
  try {
    const storedData = localStorage.getItem('jobApplicationHistory');
    const loadedHistory: TrackerData[] = storedData ? JSON.parse(storedData) : [];
    setHistory(loadedHistory);
  } catch (error) { ...; setHistory([]); }
  \<close>
  The empty string is falsy, and nothing checks what \<open>JSON.parse\<close> returned.
\<close>

type_synonym Storage = "string \<rightharpoonup> string"


definition load :: "bool \<Rightarrow> Storage \<Rightarrow> json option" where
  "load isClient localStorage =
     (if \<not> isClient then None
      else
        (case localStorage ''jobApplicationHistory'' of
           None \<Rightarrow> Some (JArr [])
         | Some storedData \<Rightarrow>
             if storedData = [] then Some (JArr [])
             else
               (case JSON_parse storedData of
                  None \<Rightarrow> Some (JArr [])
                | Some loadedHistory \<Rightarrow> Some loadedHistory)))"

text \<open>
  What the type \<open>TrackerData[]\<close> asks of a value: an array of objects with a string
  \<open>date\<close> and a number \<open>count\<close>.
\<close>

definition is_entry :: "json \<Rightarrow> bool" where
  "is_entry v =
     (case v of
        JObj ms \<Rightarrow>
          (case (map_of ms (js ''date''), map_of ms (js ''count'')) of
             (Some (JStr d), Some (JNum c)) \<Rightarrow> True
           | _ \<Rightarrow> False)
      | _ \<Rightarrow> False)"

definition is_history :: "json \<Rightarrow> bool" where
  "is_history v = (case v of JArr vs \<Rightarrow> list_all is_entry vs | _ \<Rightarrow> False)"

text \<open>
  The updater of the ensure-today effect calls \<open>currentHistory.some(...)\<close>. Only an
  array has that method: on \<open>null\<close> the property access throws a \<open>TypeError\<close>, and on
  any other value that JSON denotes \<open>some\<close> is no function.
\<close>

definition has_some_method :: "json \<Rightarrow> bool" where
  "has_some_method v = (case v of JArr vs \<Rightarrow> True | _ \<Rightarrow> False)"

subsection \<open>The calendar and the seven-day window\<close>

text \<open>
  What the specification calls the window is stated on the dates of the calendar: a
  date is a year, a month and a day; \<open>date_less\<close> is the order of the calendar,
  \<open>prevDay\<close> the day before a date, \<open>ymd_string\<close> the form \<open>YYYY-MM-DD\<close> of a date, and
  \<open>inLast7Days today s\<close> says that the string \<open>s\<close> is the form of today or of one of the
  six days before it.
\<close>

record LocalDate =
  year :: nat
  month :: nat
  day :: nat

definition isLeapYear :: "nat \<Rightarrow> bool" where
  "isLeapYear y = (y mod 4 = 0 \<and> (y mod 100 \<noteq> 0 \<or> y mod 400 = 0))"

definition daysInMonth :: "nat \<Rightarrow> nat \<Rightarrow> nat" where
  "daysInMonth y m =
     (if m = 2 then (if isLeapYear y then 29 else 28)
      else if m = 4 \<or> m = 6 \<or> m = 9 \<or> m = 11 then 30
      else 31)"


definition ymd_string :: "LocalDate \<Rightarrow> string" where
  "ymd_string t =
     fixed_digits 4 (year t) @ ''-'' @ fixed_digits 2 (month t) @ ''-'' @ fixed_digits 2 (day t)"

definition date_less :: "LocalDate \<Rightarrow> LocalDate \<Rightarrow> bool" where
  "date_less a b =
     (year a < year b \<or>
      (year a = year b \<and> (month a < month b \<or> (month a = month b \<and> day a < day b))))"





text \<open>
  One platform, for the examples: a time zone in which no day of the calendar is
  skipped or repeated around today, in a year of four digits. There \<open>new Date()\<close> is on
  the date \<open>today\<close>, \<open>setDate(n)\<close> sets the day of the month, a value below 1 counting
  back from the end of the previous month (\<open>0\<close> is its last day; the values from \<open>-27\<close>
  up contain every \<open>getDate() - 6\<close>), and \<open>toLocaleDateString('en-CA')\<close> prints
  \<open>YYYY-MM-DD\<close>. Other time zones and years are other values of \<open>DateAPI\<close>; the
  statements below say what they need of one.
\<close>

definition calendar_setDate :: "LocalDate \<Rightarrow> int \<Rightarrow> LocalDate" where
  "calendar_setDate t n =
     (if 1 \<le> n then t\<lparr>day := nat n\<rparr>
      else let y = (if month t = 1 then year t - 1 else year t);
               m = (if month t = 1 then 12 else month t - 1)
           in \<lparr>year = y, month = m, day = nat (int (daysInMonth y m) + n)\<rparr>)"

definition calendar_clock :: "LocalDate \<Rightarrow> LocalDate DateAPI" where
  "calendar_clock today =
     \<lparr>newDate = today, getDate = (\<lambda>d. int (day d)), setDate = calendar_setDate,
      toLocaleDateString = ymd_string\<rparr>"

section \<open>Properties of the addition\<close>

lemma bit_length_eq: "2 ^ k \<le> n \<Longrightarrow> n < 2 ^ Suc k \<Longrightarrow> bit_length n = Suc k"
proof (induction k arbitrary: n)
  case 0
  then have "n = 1" by simp
  then show ?case by (simp add: bit_length.simps)
next
  case (Suc k)
  have "2 ^ k \<le> n div 2" using Suc.prems(1) by simp
  moreover have "n div 2 < 2 ^ Suc k" using Suc.prems(2) by simp
  ultimately have "bit_length (n div 2) = Suc k" by (rule Suc.IH)
  moreover have "n \<noteq> 0"
  proof
    assume "n = 0"
    then have "(2::nat) ^ Suc k \<le> 0" using Suc.prems(1) by simp
    then show False by simp
  qed
  ultimately show ?case by (subst bit_length.simps) simp
qed

lemma round_double_exact: "\<bar>x\<bar> \<le> 9007199254740992 \<Longrightarrow> round_double x = x"
  by (simp add: round_double_def)

lemma round_double_nonneg: "0 \<le> x \<Longrightarrow> 0 \<le> round_double x"
  by (simp add: round_double_def Let_def)

lemma js_add_exact: "\<bar>a + b\<bar> \<le> 9007199254740992 \<Longrightarrow> js_add a b = a + b"
  by (simp add: js_add_def round_double_exact)

lemma js_add_nonneg: "0 \<le> a \<Longrightarrow> 0 \<le> b \<Longrightarrow> 0 \<le> js_add a b"
  by (simp add: js_add_def round_double_nonneg)

text \<open>\<open>2^53 + 1\<close> is no double: it lies half way between two of them and goes to the even one.\<close>

lemma round_double_2_53_plus_1: "round_double 9007199254740993 = 9007199254740992"
proof -
  have "bit_length 9007199254740993 = Suc 53"
    by (rule bit_length_eq) simp_all
  then have e: "bit_length 9007199254740993 - 53 = 1" by simp
  have n: "nat \<bar>9007199254740993\<bar> = 9007199254740993" by simp
  show ?thesis
    unfolding round_double_def Let_def n e by simp
qed

lemma js_add_2_53: "js_add 9007199254740992 1 = 9007199254740992"
  using round_double_2_53_plus_1 by (simp add: js_add_def)

section \<open>Properties of the store operations\<close>

lemma ensureToday_absent:
  "d \<notin> date ` set H \<Longrightarrow> ensureToday d H = \<lparr>count = 0, date = d\<rparr> # H"
  by (auto simp: ensureToday_def list_ex_iff)

lemma ensureToday_present:
  "d \<in> date ` set H \<Longrightarrow> ensureToday d H = H"
  by (auto simp: ensureToday_def list_ex_iff)

text \<open>
  C1. When no record of \<open>H\<close> has the date \<open>d\<close>, \<open>ensureToday d\<close> returns \<open>H\<close> with the
  record \<open>{date: d, count: 0}\<close> in front of it, the records of \<open>H\<close> unchanged and in
  order; when \<open>H\<close> has a record for \<open>d\<close>, it returns \<open>H\<close> itself.
\<close>

theorem ensureToday_prepends_or_keeps:
  "(d \<notin> date ` set H \<longrightarrow> ensureToday d H = \<lparr>count = 0, date = d\<rparr> # H) \<and>
   (d \<in> date ` set H \<longrightarrow> ensureToday d H = H)"
  by (simp add: ensureToday_absent ensureToday_present)

theorem ensureToday_prepends_or_keeps_witness:
  "''2024-06-10'' \<notin> date ` set [\<lparr>count = 3, date = ''2024-06-09''\<rparr>] \<and>
   ensureToday ''2024-06-10'' [\<lparr>count = 3, date = ''2024-06-09''\<rparr>] =
     [\<lparr>count = 0, date = ''2024-06-10''\<rparr>, \<lparr>count = 3, date = ''2024-06-09''\<rparr>] \<and>
   ''2024-06-09'' \<in> date ` set [\<lparr>count = 3, date = ''2024-06-09''\<rparr>] \<and>
   ensureToday ''2024-06-09'' [\<lparr>count = 3, date = ''2024-06-09''\<rparr>] =
     [\<lparr>count = 3, date = ''2024-06-09''\<rparr>]"
  using ensureToday_prepends_or_keeps [of "''2024-06-10''" "[\<lparr>count = 3, date = ''2024-06-09''\<rparr>]"]
    ensureToday_prepends_or_keeps [of "''2024-06-09''" "[\<lparr>count = 3, date = ''2024-06-09''\<rparr>]"]
  by simp

text \<open>
  C2. \<open>ensureToday\<close> is idempotent: applied twice for the same date it gives what one
  application gives.
\<close>

theorem ensureToday_idempotent:
  "ensureToday d (ensureToday d H) = ensureToday d H"
  by (auto simp: ensureToday_def Let_def)

theorem ensureToday_idempotent_witness:
  "ensureToday ''2024-06-10'' (ensureToday ''2024-06-10'' []) =
     [\<lparr>count = 0, date = ''2024-06-10''\<rparr>]"
  using ensureToday_idempotent [of "''2024-06-10''" "[]"]
  by (simp add: ensureToday_def)

lemma incrementCount_absent: "d \<notin> date ` set H \<Longrightarrow> incrementCount d H = H"
  unfolding incrementCount_def by (rule map_idI) auto

lemma incrementCount_nth:
  "i < length H \<Longrightarrow> incrementCount d H ! i =
     (if date (H ! i) = d then (H ! i)\<lparr>count := js_add (count (H ! i)) 1\<rparr> else H ! i)"
  unfolding incrementCount_def by (rule nth_map)

text \<open>
  C7, as the code has it. \<open>incrementCount d\<close> keeps the length, the order and every date
  of \<open>H\<close>; at each position, a record dated \<open>d\<close> whose count is below \<open>2^53\<close> in
  magnitude has its count raised by exactly 1, and a record of another date is returned
  as it was. When \<open>H\<close> has no record dated \<open>d\<close>, the result is \<open>H\<close>: nothing is added
  and nothing fails.
\<close>

theorem incrementCount_safe:
  "length (incrementCount d H) = length H \<and>
   (\<forall>i < length H.
      date (incrementCount d H ! i) = date (H ! i) \<and>
      (date (H ! i) = d \<and> \<bar>count (H ! i)\<bar> < 9007199254740992 \<longrightarrow>
         count (incrementCount d H ! i) = count (H ! i) + 1) \<and>
      (date (H ! i) \<noteq> d \<longrightarrow> incrementCount d H ! i = H ! i)) \<and>
   (d \<notin> date ` set H \<longrightarrow> incrementCount d H = H)"
proof -
  have len: "length (incrementCount d H) = length H"
    by (simp add: incrementCount_def)
  have pt: "\<forall>i < length H.
      date (incrementCount d H ! i) = date (H ! i) \<and>
      (date (H ! i) = d \<and> \<bar>count (H ! i)\<bar> < 9007199254740992 \<longrightarrow>
         count (incrementCount d H ! i) = count (H ! i) + 1) \<and>
      (date (H ! i) \<noteq> d \<longrightarrow> incrementCount d H ! i = H ! i)"
  proof (intro allI impI)
    fix i assume i: "i < length H"
    have "js_add (count (H ! i)) 1 = count (H ! i) + 1"
      if "\<bar>count (H ! i)\<bar> < 9007199254740992"
      using that by (intro js_add_exact) simp
    then show "date (incrementCount d H ! i) = date (H ! i) \<and>
      (date (H ! i) = d \<and> \<bar>count (H ! i)\<bar> < 9007199254740992 \<longrightarrow>
         count (incrementCount d H ! i) = count (H ! i) + 1) \<and>
      (date (H ! i) \<noteq> d \<longrightarrow> incrementCount d H ! i = H ! i)"
      by (simp add: incrementCount_nth [OF i])
  qed
  show ?thesis using len pt incrementCount_absent [of d H] by simp
qed

theorem incrementCount_safe_witness:
  "\<bar>count \<lparr>count = 2, date = ''2024-06-10''\<rparr>\<bar> < 9007199254740992 \<and>
   incrementCount ''2024-06-10''
     [\<lparr>count = 2, date = ''2024-06-10''\<rparr>, \<lparr>count = 5, date = ''2024-06-09''\<rparr>] =
     [\<lparr>count = 3, date = ''2024-06-10''\<rparr>, \<lparr>count = 5, date = ''2024-06-09''\<rparr>] \<and>
   ''2024-06-11'' \<notin> date ` set [\<lparr>count = 2, date = ''2024-06-10''\<rparr>] \<and>
   incrementCount ''2024-06-11'' [\<lparr>count = 2, date = ''2024-06-10''\<rparr>] =
     [\<lparr>count = 2, date = ''2024-06-10''\<rparr>]"
  using incrementCount_safe [of "''2024-06-11''" "[\<lparr>count = 2, date = ''2024-06-10''\<rparr>]"]
    incrementCount_safe [of "''2024-06-10''"
      "[\<lparr>count = 2, date = ''2024-06-10''\<rparr>, \<lparr>count = 5, date = ''2024-06-09''\<rparr>]"]
  by (simp add: incrementCount_def js_add_def round_double_def)

text \<open>
  C7 as stated fails at the count \<open>2^53\<close>: the sum \<open>2^53 + 1\<close> is rounded back to \<open>2^53\<close>,
  and the record dated \<open>d\<close> comes back with the count it had.
\<close>

theorem incrementCount_2_53_counterexample:
  "incrementCount ''2024-06-10'' [\<lparr>count = 9007199254740992, date = ''2024-06-10''\<rparr>] =
     [\<lparr>count = 9007199254740992, date = ''2024-06-10''\<rparr>] \<and>
   count (incrementCount ''2024-06-10''
       [\<lparr>count = 9007199254740992, date = ''2024-06-10''\<rparr>] ! 0) \<noteq>
     count \<lparr>count = 9007199254740992, date = ''2024-06-10''\<rparr> + 1"
  by (simp add: incrementCount_def js_add_2_53)

lemma map_date_incrementCount: "map date (incrementCount d H) = map date H"
  by (simp add: incrementCount_def)

lemma map_date_resetCount: "map date (resetCount c d H) = map date H"
  by (simp add: resetCount_def)

lemma reset_increment_map:
  "resetCount True d (incrementCount d H) =
     map (\<lambda>entry. if date entry = d then entry\<lparr>count := 0\<rparr> else entry) H"
  by (simp add: incrementCount_def resetCount_def comp_def cong: map_cong)

lemma reset_increment_nth:
  "i < length H \<Longrightarrow> resetCount True d (incrementCount d H) ! i =
     (if date (H ! i) = d then (H ! i)\<lparr>count := 0\<rparr> else H ! i)"
  unfolding reset_increment_map by (rule nth_map)

text \<open>
  C8. After \<open>incrementCount d\<close> and then a confirmed \<open>resetCount\<close> for \<open>d\<close>, the history
  has the length and the dates of \<open>H\<close>, a record dated \<open>d\<close> has count 0, and at every
  position a record of another date is the record \<open>H\<close> had there; a history that has
  a record for \<open>d\<close> still has one.
\<close>

theorem reset_after_increment:
  "length (resetCount True d (incrementCount d H)) = length H \<and>
   (\<forall>i < length H.
      date (resetCount True d (incrementCount d H) ! i) = date (H ! i) \<and>
      (date (H ! i) = d \<longrightarrow> count (resetCount True d (incrementCount d H) ! i) = 0) \<and>
      (date (H ! i) \<noteq> d \<longrightarrow> resetCount True d (incrementCount d H) ! i = H ! i)) \<and>
   (d \<in> date ` set H \<longrightarrow> d \<in> date ` set (resetCount True d (incrementCount d H)))"
proof -
  have len: "length (resetCount True d (incrementCount d H)) = length H"
    by (simp add: reset_increment_map)
  have pt: "\<forall>i < length H.
      date (resetCount True d (incrementCount d H) ! i) = date (H ! i) \<and>
      (date (H ! i) = d \<longrightarrow> count (resetCount True d (incrementCount d H) ! i) = 0) \<and>
      (date (H ! i) \<noteq> d \<longrightarrow> resetCount True d (incrementCount d H) ! i = H ! i)"
    by (simp add: reset_increment_nth)
  have "map date (resetCount True d (incrementCount d H)) = map date H"
    by (simp add: map_date_resetCount map_date_incrementCount)
  then have "date ` set (resetCount True d (incrementCount d H)) = date ` set H"
    by (metis set_map)
  then show ?thesis using len pt by simp
qed

theorem reset_after_increment_witness:
  "''2024-06-10'' \<in> date ` set [\<lparr>count = 2, date = ''2024-06-10''\<rparr>, \<lparr>count = 5, date = ''2024-06-09''\<rparr>] \<and>
   resetCount True ''2024-06-10'' (incrementCount ''2024-06-10''
     [\<lparr>count = 2, date = ''2024-06-10''\<rparr>, \<lparr>count = 5, date = ''2024-06-09''\<rparr>]) =
     [\<lparr>count = 0, date = ''2024-06-10''\<rparr>, \<lparr>count = 5, date = ''2024-06-09''\<rparr>]"
  using reset_after_increment [of "''2024-06-10''"
      "[\<lparr>count = 2, date = ''2024-06-10''\<rparr>, \<lparr>count = 5, date = ''2024-06-09''\<rparr>]"]
  by (simp add: incrementCount_def resetCount_def)

lemma ensureToday_inv: "history_inv H \<Longrightarrow> history_inv (ensureToday d H)"
  by (auto simp: history_inv_def ensureToday_def list_ex_iff)

lemma incrementCount_inv: "history_inv H \<Longrightarrow> history_inv (incrementCount d H)"
  unfolding history_inv_def map_date_incrementCount
  by (auto simp: incrementCount_def list_all_iff js_add_nonneg)

lemma resetCount_inv: "history_inv H \<Longrightarrow> history_inv (resetCount c d H)"
  unfolding history_inv_def map_date_resetCount
  by (auto simp: resetCount_def list_all_iff)

text \<open>
  C10. From a history with at most one record per date and no negative count,
  \<open>ensureToday\<close>, \<open>incrementCount\<close> and \<open>resetCount\<close> (whatever the answer to its
  confirmation) each give a history with at most one record per date and no negative
  count.
\<close>

theorem operations_preserve_inv:
  "history_inv H \<Longrightarrow>
     history_inv (ensureToday d H) \<and> history_inv (incrementCount d H) \<and>
     history_inv (resetCount c d H)"
  by (simp add: ensureToday_inv incrementCount_inv resetCount_inv)

theorem operations_preserve_inv_witness:
  "history_inv [\<lparr>count = 2, date = ''2024-06-09''\<rparr>] \<and>
   history_inv (ensureToday ''2024-06-10'' [\<lparr>count = 2, date = ''2024-06-09''\<rparr>]) \<and>
   history_inv (incrementCount ''2024-06-09'' [\<lparr>count = 2, date = ''2024-06-09''\<rparr>]) \<and>
   history_inv (resetCount True ''2024-06-09'' [\<lparr>count = 2, date = ''2024-06-09''\<rparr>])"
proof -
  have h: "history_inv [\<lparr>count = 2, date = ''2024-06-09''\<rparr>]"
    by (simp add: history_inv_def)
  show ?thesis
    using h operations_preserve_inv [OF h, of "''2024-06-10''" True]
      operations_preserve_inv [OF h, of "''2024-06-09''" True]
    by simp
qed

section \<open>Properties of the statistics\<close>

lemma foldl_js_add:
  "\<bar>a\<bar> + sum_list (map (\<lambda>e. \<bar>count e\<bar>) H) \<le> 9007199254740992 \<Longrightarrow>
   foldl (\<lambda>sum entry. js_add sum (count entry)) a H = a + sum_list (map count H)"
proof (induction H arbitrary: a)
  case Nil
  then show ?case by simp
next
  case (Cons x xs)
  have "\<bar>a + count x\<bar> \<le> \<bar>a\<bar> + \<bar>count x\<bar>" by simp
  moreover have "0 \<le> sum_list (map (\<lambda>e. \<bar>count e\<bar>) xs)"
    by (rule sum_list_nonneg) auto
  ultimately have s: "\<bar>a + count x\<bar> \<le> 9007199254740992"
    and r: "\<bar>a + count x\<bar> + sum_list (map (\<lambda>e. \<bar>count e\<bar>) xs) \<le> 9007199254740992"
    using Cons.prems by simp_all
  have "js_add a (count x) = a + count x" using s by (rule js_add_exact)
  then show ?case using Cons.IH [OF r] by simp
qed

text \<open>
  C9, as the code has it. For every history whose counts have absolute values that
  sum to at most \<open>2^53\<close>, the empty history included, \<open>total\<close> is the sum of the counts of
  the records of the list (each record counted as often as it occurs); for the empty
  history it is 0.
\<close>

theorem total_is_sum_safe:
  "(sum_list (map (\<lambda>e. \<bar>count e\<bar>) H) \<le> 9007199254740992 \<longrightarrow>
      total (summaryStats Date H) = sum_list (map count H)) \<and>
   total (summaryStats Date []) = 0"
proof (intro conjI impI)
  assume "sum_list (map (\<lambda>e. \<bar>count e\<bar>) H) \<le> 9007199254740992"
  then have "foldl (\<lambda>sum entry. js_add sum (count entry)) 0 H = 0 + sum_list (map count H)"
    by (intro foldl_js_add) simp
  then show "total (summaryStats Date H) = sum_list (map count H)"
    by (simp add: summaryStats_def Let_def)
next
  show "total (summaryStats Date []) = 0"
    by (simp add: summaryStats_def)
qed

theorem total_is_sum_safe_witness:
  "sum_list (map (\<lambda>e. \<bar>count e\<bar>)
     [\<lparr>count = 2, date = ''2024-06-10''\<rparr>, \<lparr>count = 3, date = ''2024-06-04''\<rparr>]) \<le> 9007199254740992 \<and>
   total (summaryStats (calendar_clock \<lparr>year = 2024, month = 6, day = 10\<rparr>)
     [\<lparr>count = 2, date = ''2024-06-10''\<rparr>, \<lparr>count = 3, date = ''2024-06-04''\<rparr>]) = 5"
  using total_is_sum_safe [of
     "[\<lparr>count = 2, date = ''2024-06-10''\<rparr>, \<lparr>count = 3, date = ''2024-06-04''\<rparr>]"
     "calendar_clock \<lparr>year = 2024, month = 6, day = 10\<rparr>"]
  by simp

text \<open>
  C9 as stated fails once a partial sum passes \<open>2^53\<close>: for the counts \<open>2^53\<close>, 1 and 1
  each addition of 1 is rounded away, and \<open>total\<close> is \<open>2^53\<close>, not their sum.
\<close>

theorem total_rounding_counterexample:
  "total (summaryStats (calendar_clock \<lparr>year = 2024, month = 6, day = 10\<rparr>)
     [\<lparr>count = 9007199254740992, date = ''2024-06-10''\<rparr>, \<lparr>count = 1, date = ''2024-06-09''\<rparr>,
      \<lparr>count = 1, date = ''2024-06-08''\<rparr>]) = 9007199254740992 \<and>
   sum_list (map count
     [\<lparr>count = 9007199254740992, date = ''2024-06-10''\<rparr>, \<lparr>count = 1, date = ''2024-06-09''\<rparr>,
      \<lparr>count = 1, date = ''2024-06-08''\<rparr>]) = 9007199254740994"
proof -
  have "js_add 0 9007199254740992 = 9007199254740992"
    by (simp add: js_add_exact)
  then show ?thesis
    by (simp add: summaryStats_def Let_def js_add_2_53)
qed

lemma best_keep:
  "\<forall>e\<in>set H. count e \<le> count m \<Longrightarrow>
   foldl (\<lambda>max entry. if count entry > count max then entry else max) m H = m"
  by (induction H arbitrary: m) auto

lemma Max_count_Cons_le:
  assumes "e \<in> set xs" "count x < count e"
  shows "Max (count ` set (x # xs)) = Max (count ` set xs)" "count x \<noteq> Max (count ` set xs)"
proof -
  have ne: "count ` set xs \<noteq> {}" using assms by auto
  have "count e \<le> Max (count ` set xs)" using assms by simp
  then have lt: "count x < Max (count ` set xs)" using assms by linarith
  then show "count x \<noteq> Max (count ` set xs)" by simp
  have "Max (count ` set (x # xs)) = max (count x) (Max (count ` set xs))"
    using ne by simp
  then show "Max (count ` set (x # xs)) = Max (count ` set xs)" using lt by simp
qed

lemma Max_count_Cons_ge:
  assumes "\<forall>e\<in>set xs. count e \<le> count x"
  shows "Max (count ` set (x # xs)) = count x"
proof (cases "xs = []")
  case True then show ?thesis by simp
next
  case False
  then have "Max (count ` set xs) \<le> count x" using assms by simp
  moreover have "Max (count ` set (x # xs)) = max (count x) (Max (count ` set xs))"
    using False by simp
  ultimately show ?thesis by simp
qed

lemma best_first_max:
  "\<exists>e\<in>set H. count e > count m \<Longrightarrow>
   find (\<lambda>e. count e = Max (count ` set H)) H =
     Some (foldl (\<lambda>max entry. if count entry > count max then entry else max) m H)"
proof (induction H arbitrary: m)
  case Nil
  then show ?case by simp
next
  case (Cons x xs)
  let ?f = "\<lambda>max entry. if count entry > count max then entry else (max::TrackerData)"
  show ?case
  proof (cases "count x > count m")
    case True
    show ?thesis
    proof (cases "\<exists>e\<in>set xs. count e > count x")
      case True
      then obtain e where e: "e \<in> set xs" "count x < count e" by auto
      from Cons.IH [OF True] Max_count_Cons_le [OF e] \<open>count x > count m\<close>
      show ?thesis by simp
    next
      case False
      then have le: "\<forall>e\<in>set xs. count e \<le> count x" by auto
      from best_keep [OF le] Max_count_Cons_ge [OF le] \<open>count x > count m\<close>
      show ?thesis by simp
    qed
  next
    case False
    with Cons.prems obtain e where e: "e \<in> set xs" "count m < count e" by auto
    then have e': "count x < count e" using False by simp
    have ex: "\<exists>e\<in>set xs. count m < count e" using e by auto
    from Cons.IH [OF ex] Max_count_Cons_le [OF e(1) e'] False
    show ?thesis by simp
  qed
qed

text \<open>
  C6, as the code has it. For the empty history \<open>bestDay\<close> is \<open>{ count: 0 }\<close>. When some
  record has a positive count, \<open>bestDay\<close> is the first record of the list whose count
  is the maximum. When the history is not empty and no count is positive, \<open>bestDay\<close>
  is the starting value of the reduction, \<open>{ count: 0, date: '' }\<close>, which is no record
  of the history. In every history without a negative count, \<open>bestDay.count\<close> is the
  maximum count (0 for the empty history).
\<close>

theorem bestDay_spec:
  "bestDay (summaryStats now []) = CountOnly 0 \<and>
   ((\<exists>e\<in>set H. 0 < count e) \<longrightarrow>
      (\<exists>b. bestDay (summaryStats now H) = Entry b \<and>
           find (\<lambda>e. count e = Max (count ` set H)) H = Some b)) \<and>
   (H \<noteq> [] \<and> (\<forall>e\<in>set H. count e \<le> 0) \<longrightarrow>
      bestDay (summaryStats now H) = Entry \<lparr>count = 0, date = ''''\<rparr>) \<and>
   ((\<forall>e\<in>set H. 0 \<le> count e) \<longrightarrow>
      bestDay_count (bestDay (summaryStats now H)) = (if H = [] then 0 else Max (count ` set H)))"
proof -
  let ?f = "\<lambda>max entry. if count entry > count max then entry else (max::TrackerData)"
  let ?s = "\<lparr>count = 0, date = ''''\<rparr>"
  have b: "H \<noteq> [] \<Longrightarrow> bestDay (summaryStats now H) = Entry (foldl ?f ?s H)"
    by (simp add: summaryStats_def Let_def)
  have p1: "bestDay (summaryStats now []) = CountOnly 0"
    by (simp add: summaryStats_def)
  have p2: "\<exists>b. bestDay (summaryStats now H) = Entry b \<and>
           find (\<lambda>e. count e = Max (count ` set H)) H = Some b"
    if "\<exists>e\<in>set H. 0 < count e"
  proof -
    from that have "H \<noteq> []" by auto
    moreover from that have "\<exists>e\<in>set H. count ?s < count e" by simp
    ultimately show ?thesis using b best_first_max [of H ?s] by simp
  qed
  have p3: "bestDay (summaryStats now H) = Entry ?s" if "H \<noteq> []" "\<forall>e\<in>set H. count e \<le> 0"
    using that b best_keep [of H ?s] by simp
  have p4: "bestDay_count (bestDay (summaryStats now H)) = (if H = [] then 0 else Max (count ` set H))"
    if nn: "\<forall>e\<in>set H. 0 \<le> count e"
  proof (cases "H = []")
    case True
    then show ?thesis using p1 by simp
  next
    case False
    show ?thesis
    proof (cases "\<exists>e\<in>set H. 0 < count e")
      case True
      from p2 [OF True] obtain b where "bestDay (summaryStats now H) = Entry b"
        "find (\<lambda>e. count e = Max (count ` set H)) H = Some b" by auto
      then show ?thesis using False by (auto simp: find_Some_iff)
    next
      case False
      then have z: "\<forall>e\<in>set H. count e = 0" using nn by (auto simp: not_less order.antisym)
      then have "count ` set H = {0}" using \<open>H \<noteq> []\<close> by (cases H) auto
      then have "Max (count ` set H) = 0" by simp
      moreover have "bestDay (summaryStats now H) = Entry ?s"
        using p3 \<open>H \<noteq> []\<close> z by simp
      ultimately show ?thesis using \<open>H \<noteq> []\<close> by simp
    qed
  qed
  show ?thesis using p1 p2 p3 p4 by blast
qed

theorem bestDay_spec_witness:
  "0 < count \<lparr>count = 2, date = ''2024-06-10''\<rparr> \<and>
   bestDay (summaryStats (calendar_clock \<lparr>year = 2024, month = 6, day = 10\<rparr>)
     [\<lparr>count = 2, date = ''2024-06-10''\<rparr>, \<lparr>count = 2, date = ''2024-06-09''\<rparr>]) =
     Entry \<lparr>count = 2, date = ''2024-06-10''\<rparr> \<and>
   bestDay_count (bestDay (summaryStats (calendar_clock \<lparr>year = 2024, month = 6, day = 10\<rparr>)
     [\<lparr>count = 2, date = ''2024-06-10''\<rparr>, \<lparr>count = 2, date = ''2024-06-09''\<rparr>])) = 2 \<and>
   count \<lparr>count = 0, date = ''2024-06-10''\<rparr> \<le> 0 \<and>
   bestDay (summaryStats (calendar_clock \<lparr>year = 2024, month = 6, day = 10\<rparr>) [\<lparr>count = 0, date = ''2024-06-10''\<rparr>]) =
     Entry \<lparr>count = 0, date = ''''\<rparr>"
  using bestDay_spec [of "calendar_clock \<lparr>year = 2024, month = 6, day = 10\<rparr>"
      "[\<lparr>count = 2, date = ''2024-06-10''\<rparr>, \<lparr>count = 2, date = ''2024-06-09''\<rparr>]"]
    bestDay_spec [of "calendar_clock \<lparr>year = 2024, month = 6, day = 10\<rparr>"
      "[\<lparr>count = 0, date = ''2024-06-10''\<rparr>]"]
  by (simp add: summaryStats_def Let_def)

text \<open>
  C6 as stated fails on the history the program starts every day with: its only
  record has count 0, and \<open>bestDay\<close> is not a record of the history.
\<close>

theorem bestDay_sentinel_counterexample:
  "bestDay (summaryStats (calendar_clock \<lparr>year = 2024, month = 6, day = 10\<rparr>) [\<lparr>count = 0, date = ''2024-06-10''\<rparr>])
     = Entry \<lparr>count = 0, date = ''''\<rparr> \<and>
   \<lparr>count = 0, date = ''''\<rparr> \<notin> set [\<lparr>count = 0, date = ''2024-06-10''\<rparr>]"
  by (simp add: summaryStats_def Let_def)

section \<open>The trailing seven days\<close>

lemma nat_less_10_cases:
  "(k::nat) < 10 \<Longrightarrow>
     k = 0 \<or> k = 1 \<or> k = 2 \<or> k = 3 \<or> k = 4 \<or> k = 5 \<or> k = 6 \<or> k = 7 \<or> k = 8 \<or> k = 9"
  by (simp add: numeral_eq_Suc less_Suc_eq)

lemma of_char_digit_char: "of_char (digit_char n) = (48 + n mod 10 :: nat)"
proof -
  have "n mod 10 < 10" by simp
  then have "n mod 10 = 0 \<or> n mod 10 = 1 \<or> n mod 10 = 2 \<or> n mod 10 = 3 \<or> n mod 10 = 4 \<or>
    n mod 10 = 5 \<or> n mod 10 = 6 \<or> n mod 10 = 7 \<or> n mod 10 = 8 \<or> n mod 10 = 9"
    by (rule nat_less_10_cases)
  then show ?thesis unfolding digit_char_def by (elim disjE) simp_all
qed


lemma digit_char_eq: "digit_char a = digit_char b \<longleftrightarrow> a mod 10 = b mod 10"
proof
  assume "digit_char a = digit_char b"
  then have "(of_char (digit_char a) :: nat) = of_char (digit_char b)" by simp
  then show "a mod 10 = b mod 10" by (simp add: of_char_digit_char)
next
  assume "a mod 10 = b mod 10"
  then show "digit_char a = digit_char b" by (simp add: digit_char_def)
qed

lemma length_fixed_digits [simp]: "length (fixed_digits k n) = k"
  by (induction k arbitrary: n) auto
















lemma date_le_trans: "\<not> date_less b a \<Longrightarrow> \<not> date_less c b \<Longrightarrow> \<not> date_less c a"
  unfolding date_less_def by arith

































section \<open>The parser never runs out of fuel\<close>

lemma length_skip_ws: "length (skip_ws s) \<le> length s"
  by (induction s) auto

lemma skip_ws_Cons_length: "skip_ws s = c # cs \<Longrightarrow> length cs < length s"
  using length_skip_ws [of s] by simp

lemma parse_chars_length: "parse_chars s = Some (ws, r) \<Longrightarrow> length r < length s"
proof (induction s arbitrary: ws r rule: parse_chars.induct)
  case 1
  then show ?case by simp
next
  case (2 c cs)
  then show ?case
    by (auto split: if_splits list.splits option.splits prod.splits) force+
qed

lemma strip_prefix_length: "strip_prefix p s = Some r \<Longrightarrow> length r \<le> length s"
  by (induction p s rule: strip_prefix.induct) (auto split: if_splits)

lemma le_tl: "length r \<le> n \<Longrightarrow> length (tl r) \<le> n"
  by simp

lemma le_dropWhile: "length r \<le> n \<Longrightarrow> length (dropWhile P r) \<le> n"
  using length_dropWhile_le [of P r] by simp

lemma takeWhile_nonempty_dropWhile:
  "takeWhile P xs \<noteq> [] \<Longrightarrow> length (dropWhile P xs) < length xs"
  by (cases xs) (auto split: if_splits simp: le_imp_less_Suc length_dropWhile_le)

lemma parse_fraction_length: "parse_fraction s = Some (f, r) \<Longrightarrow> length r \<le> length s"
  unfolding parse_fraction_def Let_def
  by (auto split: list.splits if_splits simp: le_dropWhile le_SucI)

lemma parse_exponent_length: "parse_exponent s = Some (e, r) \<Longrightarrow> length r \<le> length s"
  unfolding parse_exponent_def Let_def
  by (auto split: list.splits if_splits simp: le_dropWhile le_SucI le_tl)

lemma parse_number_length:
  assumes a: "parse_number s = Some (x, r)"
  shows "length r < length s"
proof -
  define s1 where "s1 = (if s \<noteq> [] \<and> hd s = CHR ''-'' then tl s else s)"
  have ip: "takeWhile is_digit s1 \<noteq> []"
  proof
    assume "takeWhile is_digit s1 = []"
    then have "parse_number s = None"
      by (simp add: parse_number_def Let_def s1_def)
    then show False using a by simp
  qed
  have l1: "length (dropWhile is_digit s1) < length s1"
    using ip by (rule takeWhile_nonempty_dropWhile)
  have l0: "length s1 \<le> length s" by (simp add: s1_def)
  from a obtain f s2 e where f: "parse_fraction (dropWhile is_digit s1) = Some (f, s2)"
    and e: "parse_exponent s2 = Some (e, r)"
    unfolding parse_number_def Let_def s1_def [symmetric]
    by (auto split: if_splits option.splits)
  show ?thesis
    using parse_fraction_length [OF f] parse_exponent_length [OF e] l0 l1 by simp
qed

lemma skip_ws_Cons_length': "skip_ws s = c # cs \<Longrightarrow> Suc (length cs) \<le> length s"
  using length_skip_ws [of s] by simp

lemma parse_value_consumes_step:
  assumes E: "\<And>s vs r. parse_elements n s = Parsed vs r \<Longrightarrow> length r < length s"
    and M: "\<And>s ms r. parse_members n s = Parsed ms r \<Longrightarrow> length r < length s"
    and a: "parse_value (Suc n) s = Parsed v r"
  shows "length r < length s"
proof -
  obtain c cs where s: "skip_ws s = c # cs"
    using a by (cases "skip_ws s") (simp_all add: parse_value.simps)
  have l: "Suc (length cs) \<le> length s" using s by (rule skip_ws_Cons_length')
  have "length r \<le> length cs"
  proof (cases "c = CHR ''[''")
    case True
    then obtain d r0 where d: "skip_ws cs = d # r0"
      using a s by (cases "skip_ws cs") (simp_all add: parse_value.simps)
    show ?thesis
    proof (cases "d = CHR '']''")
      case True
      then have "r = r0" using a s d \<open>c = CHR ''[''\<close> by (simp add: parse_value.simps)
      then show ?thesis using skip_ws_Cons_length' [OF d] by simp
    next
      case False
      then obtain vs where "parse_elements n cs = Parsed vs r"
        using a s d \<open>c = CHR ''[''\<close> by (simp add: parse_value.simps split: parsed.splits)
      then show ?thesis using E by fastforce
    qed
  next
    case nb: False
    show ?thesis
    proof (cases "c = CHR ''{''")
      case True
      then obtain d r0 where d: "skip_ws cs = d # r0"
        using a s by (cases "skip_ws cs") (simp_all add: parse_value.simps)
      show ?thesis
      proof (cases "d = CHR ''}''")
        case True
        then have "r = r0" using a s d \<open>c = CHR ''{''\<close> by (simp add: parse_value.simps)
        then show ?thesis using skip_ws_Cons_length' [OF d] by simp
      next
        case False
        then obtain ms where "parse_members n cs = Parsed ms r"
          using a s d \<open>c = CHR ''{''\<close> by (simp add: parse_value.simps split: parsed.splits)
        then show ?thesis using M by fastforce
      qed
    next
      case no: False
      show ?thesis
      proof (cases "c = CHR 0x22")
        case True
        then obtain ws where "parse_chars cs = Some (ws, r)"
          using a s by (simp add: parse_value.simps split: option.splits prod.splits)
        then show ?thesis using parse_chars_length by fastforce
      next
        case nq: False
        show ?thesis
        proof (cases "c = CHR ''-'' \<or> is_digit c")
          case True
          then obtain x where "parse_number (c # cs) = Some (x, r)"
            using a s nb no nq by (simp add: parse_value.simps split: option.splits prod.splits)
          then show ?thesis using parse_number_length by fastforce
        next
          case False
          then have "strip_prefix ''rue'' cs = Some r \<or> strip_prefix ''alse'' cs = Some r \<or>
              strip_prefix ''ull'' cs = Some r"
            using a s nb no nq
            by (simp add: parse_value.simps split: option.splits if_splits)
          then show ?thesis using strip_prefix_length by blast
        qed
      qed
    qed
  qed
  then show ?thesis using l by simp
qed


lemma parse_elements_Parsed:
  assumes "parse_elements (Suc n) s = Parsed vs r"
  shows "\<exists>v r0 c r'. parse_value n s = Parsed v r0 \<and> skip_ws r0 = c # r' \<and>
     ((\<exists>vs'. parse_elements n r' = Parsed vs' r) \<or> r = r')"
  using assms
  by (simp add: parse_elements.simps split: parsed.splits list.splits if_splits)

lemma parse_members_Parsed:
  assumes "parse_members (Suc n) s = Parsed ms r"
  shows "\<exists>q s1 k s2 c s3 v r0 d r'. skip_ws s = q # s1 \<and> parse_chars s1 = Some (k, s2) \<and>
     skip_ws s2 = c # s3 \<and> parse_value n s3 = Parsed v r0 \<and> skip_ws r0 = d # r' \<and>
     ((\<exists>ms'. parse_members n r' = Parsed ms' r) \<or> r = r')"
  using assms
  by (simp add: parse_members.simps
      split: parsed.splits list.splits if_splits option.splits prod.splits)

lemma parse_consumes:
  "(\<forall>s v r. parse_value n s = Parsed v r \<longrightarrow> length r < length s) \<and>
   (\<forall>s vs r. parse_elements n s = Parsed vs r \<longrightarrow> length r < length s) \<and>
   (\<forall>s ms r. parse_members n s = Parsed ms r \<longrightarrow> length r < length s)"
proof (induction n)
  case 0
  show ?case by (simp add: parse_value.simps parse_elements.simps parse_members.simps)
next
  case (Suc n)
  then have V: "\<And>s v r. parse_value n s = Parsed v r \<Longrightarrow> length r < length s"
    and E: "\<And>s vs r. parse_elements n s = Parsed vs r \<Longrightarrow> length r < length s"
    and M: "\<And>s ms r. parse_members n s = Parsed ms r \<Longrightarrow> length r < length s"
    by blast+
  have v: "length r < length s" if "parse_value (Suc n) s = Parsed v r" for s v r
    using E M that by (rule parse_value_consumes_step)
  have e: "length r < length s" if a: "parse_elements (Suc n) s = Parsed vs r" for s vs r
  proof -
    from parse_elements_Parsed [OF a] obtain v r0 c r' where
      p: "parse_value n s = Parsed v r0" "skip_ws r0 = c # r'"
        "(\<exists>vs'. parse_elements n r' = Parsed vs' r) \<or> r = r'" by blast
    have "length r \<le> length r'" using p(3) E by fastforce
    then show ?thesis using V [OF p(1)] skip_ws_Cons_length [OF p(2)] by simp
  qed
  have m: "length r < length s" if a: "parse_members (Suc n) s = Parsed ms r" for s ms r
  proof -
    from parse_members_Parsed [OF a] obtain q s1 k s2 c s3 v r0 d r' where
      p: "skip_ws s = q # s1" "parse_chars s1 = Some (k, s2)" "skip_ws s2 = c # s3"
        "parse_value n s3 = Parsed v r0" "skip_ws r0 = d # r'"
        "(\<exists>ms'. parse_members n r' = Parsed ms' r) \<or> r = r'" by blast
    have "length r \<le> length r'" using p(6) M by fastforce
    then show ?thesis
      using skip_ws_Cons_length [OF p(1)] parse_chars_length [OF p(2)]
        skip_ws_Cons_length [OF p(3)] V [OF p(4)] skip_ws_Cons_length [OF p(5)] by simp
  qed
  show ?case using v e m by blast
qed

lemma parse_value_consumes: "parse_value n s = Parsed v r \<Longrightarrow> length r < length s"
  using parse_consumes [of n] by blast

lemma parse_value_OutOfFuel:
  assumes "parse_value (Suc n) s = OutOfFuel"
  shows "\<exists>c cs. skip_ws s = c # cs \<and>
     (parse_elements n cs = OutOfFuel \<or> parse_members n cs = OutOfFuel)"
  using assms
  by (simp add: parse_value.simps
      split: parsed.splits list.splits if_splits option.splits prod.splits)

lemma parse_elements_OutOfFuel:
  assumes "parse_elements (Suc n) s = OutOfFuel"
  shows "parse_value n s = OutOfFuel \<or>
     (\<exists>v r0 c r'. parse_value n s = Parsed v r0 \<and> skip_ws r0 = c # r' \<and>
        parse_elements n r' = OutOfFuel)"
  using assms
  by (simp add: parse_elements.simps split: parsed.splits list.splits if_splits)

lemma parse_members_OutOfFuel:
  assumes "parse_members (Suc n) s = OutOfFuel"
  shows "\<exists>q s1 k s2 c s3. skip_ws s = q # s1 \<and> parse_chars s1 = Some (k, s2) \<and>
     skip_ws s2 = c # s3 \<and>
     (parse_value n s3 = OutOfFuel \<or>
      (\<exists>v r0 d r'. parse_value n s3 = Parsed v r0 \<and> skip_ws r0 = d # r' \<and>
         parse_members n r' = OutOfFuel))"
  using assms
  by (simp add: parse_members.simps
      split: parsed.splits list.splits if_splits option.splits prod.splits)

lemma parse_fuel:
  "(\<forall>s. 2 * length s < n \<longrightarrow> parse_value n s \<noteq> OutOfFuel) \<and>
   (\<forall>s. 2 * length s + 1 < n \<longrightarrow> parse_elements n s \<noteq> OutOfFuel) \<and>
   (\<forall>s. 2 * length s + 1 < n \<longrightarrow> parse_members n s \<noteq> OutOfFuel)"
proof (induction n)
  case 0
  show ?case by simp
next
  case (Suc n)
  then have V: "\<And>s. 2 * length s < n \<Longrightarrow> parse_value n s \<noteq> OutOfFuel"
    and E: "\<And>s. 2 * length s + 1 < n \<Longrightarrow> parse_elements n s \<noteq> OutOfFuel"
    and M: "\<And>s. 2 * length s + 1 < n \<Longrightarrow> parse_members n s \<noteq> OutOfFuel"
    by blast+
  have v: "parse_value (Suc n) s \<noteq> OutOfFuel" if b: "2 * length s < Suc n" for s
  proof
    assume "parse_value (Suc n) s = OutOfFuel"
    from parse_value_OutOfFuel [OF this] obtain c cs where
      p: "skip_ws s = c # cs" "parse_elements n cs = OutOfFuel \<or> parse_members n cs = OutOfFuel"
      by blast
    have "2 * length cs + 1 < n" using skip_ws_Cons_length [OF p(1)] b by simp
    then show False using p(2) E M by blast
  qed
  have e: "parse_elements (Suc n) s \<noteq> OutOfFuel" if b: "2 * length s + 1 < Suc n" for s
  proof
    assume "parse_elements (Suc n) s = OutOfFuel"
    from parse_elements_OutOfFuel [OF this] consider
      (a) "parse_value n s = OutOfFuel"
      | (b) v r0 c r' where "parse_value n s = Parsed v r0" "skip_ws r0 = c # r'"
          "parse_elements n r' = OutOfFuel" by blast
    then show False
    proof cases
      case a
      then show False using V [of s] b by simp
    next
      case b': b
      have "2 * length r' + 1 < n"
        using parse_value_consumes [OF b'(1)] skip_ws_Cons_length [OF b'(2)] b by simp
      then show False using b'(3) E by blast
    qed
  qed
  have m: "parse_members (Suc n) s \<noteq> OutOfFuel" if b: "2 * length s + 1 < Suc n" for s
  proof
    assume "parse_members (Suc n) s = OutOfFuel"
    from parse_members_OutOfFuel [OF this] obtain q s1 k s2 c s3 where
      p: "skip_ws s = q # s1" "parse_chars s1 = Some (k, s2)" "skip_ws s2 = c # s3"
        "parse_value n s3 = OutOfFuel \<or>
         (\<exists>v r0 d r'. parse_value n s3 = Parsed v r0 \<and> skip_ws r0 = d # r' \<and>
            parse_members n r' = OutOfFuel)" by blast
    have l3: "length s3 + 3 \<le> length s"
      using skip_ws_Cons_length [OF p(1)] parse_chars_length [OF p(2)]
        skip_ws_Cons_length [OF p(3)] by simp
    from p(4) show False
    proof
      assume "parse_value n s3 = OutOfFuel"
      then show False using V [of s3] l3 b by simp
    next
      assume "\<exists>v r0 d r'. parse_value n s3 = Parsed v r0 \<and> skip_ws r0 = d # r' \<and>
            parse_members n r' = OutOfFuel"
      then obtain v r0 d r' where q: "parse_value n s3 = Parsed v r0" "skip_ws r0 = d # r'"
        "parse_members n r' = OutOfFuel" by blast
      have "2 * length r' + 1 < n"
        using parse_value_consumes [OF q(1)] skip_ws_Cons_length [OF q(2)] l3 b by simp
      then show False using q(3) M by blast
    qed
  qed
  show ?case using v e m by blast
qed

text \<open>
  The fuel that \<open>JSON_parse\<close> gives is never used up, so \<open>None\<close> is a \<open>SyntaxError\<close>
  and nothing else.
\<close>

theorem parse_value_fuel: "parse_value (2 * length text + 1) text \<noteq> OutOfFuel"
  using parse_fuel [of "2 * length text + 1"] by simp

section \<open>Persistence round trip\<close>

lemma hex_digit_cases:
  assumes "k < 16"
  shows "k = 0 \<or> k = 1 \<or> k = 2 \<or> k = 3 \<or> k = 4 \<or> k = 5 \<or> k = 6 \<or> k = 7 \<or> k = 8 \<or>
    k = 9 \<or> k = 10 \<or> k = 11 \<or> k = 12 \<or> k = 13 \<or> k = 14 \<or> (k::nat) = 15"
  using assms by (simp add: numeral_eq_Suc less_Suc_eq)

lemma hex_val_hex_digit:
  assumes "k < 16"
  shows "hex_val (hex_digit k) = Some k"
  using hex_digit_cases [OF assms]
  by (elim disjE) (simp_all add: hex_val_def hex_digit_def is_digit_def digit_val_def)

lemma hex_val_zero: "hex_val CHR ''0'' = Some 0"
  by (simp add: hex_val_def is_digit_def digit_val_def)

lemma hex4_control:
  assumes "n < 32"
  shows "hex4 CHR ''0'' CHR ''0'' (hex_digit (n div 16)) (hex_digit n) = Some (of_nat n)"
proof -
  have a: "hex_val (hex_digit (n div 16)) = Some (n div 16)"
    using assms by (intro hex_val_hex_digit) simp
  have "hex_digit n = hex_digit (n mod 16)" by (simp add: hex_digit_def)
  then have b: "hex_val (hex_digit n) = Some (n mod 16)"
    using hex_val_hex_digit [of "n mod 16"] by simp
  show ?thesis by (simp add: hex4_def hex_val_zero a b)
qed

lemma parse_chars_escape:
  "parse_chars (escape_char c @ rest) =
     (case parse_chars rest of None \<Rightarrow> None | Some (ws, r) \<Rightarrow> Some (of_char c # ws, r))"
proof -
  consider (special) "c = CHR 0x08 \<or> c = CHR 0x09 \<or> c = CHR 0x0A \<or> c = CHR 0x0C \<or> c = CHR 0x0D \<or>
      c = CHR 0x22 \<or> c = CHR 0x5C"
    | (control) "c \<noteq> CHR 0x08" "c \<noteq> CHR 0x09" "c \<noteq> CHR 0x0A" "c \<noteq> CHR 0x0C" "c \<noteq> CHR 0x0D"
      "c \<noteq> CHR 0x22" "c \<noteq> CHR 0x5C" "(of_char c :: nat) < 0x20"
    | (plain) "c \<noteq> CHR 0x08" "c \<noteq> CHR 0x09" "c \<noteq> CHR 0x0A" "c \<noteq> CHR 0x0C" "c \<noteq> CHR 0x0D"
      "c \<noteq> CHR 0x22" "c \<noteq> CHR 0x5C" "\<not> (of_char c :: nat) < 0x20"
    by blast
  then show ?thesis
  proof cases
    case special
    then show ?thesis
      by (elim disjE; clarsimp simp: escape_char_def unescape_def split: option.splits)
  next
    case control
    have e: "escape_char c = [CHR 0x5C, CHR ''u'', CHR ''0'', CHR ''0'',
              hex_digit (of_char c div 16), hex_digit (of_char c)]"
      using control by (simp add: escape_char_def)
    have h: "hex4 CHR ''0'' CHR ''0'' (hex_digit (of_char c div 16)) (hex_digit (of_char c)) =
        Some (of_char c)"
      using hex4_control [of "of_char c"] control(8) by (simp add: of_nat_of_char)
    show ?thesis unfolding e by (simp add: h)
  next
    case plain
    then show ?thesis by (simp add: escape_char_def)
  qed
qed

lemma parse_chars_escaped:
  "parse_chars (concat (map escape_char s) @ CHR 0x22 # rest) = Some (js s, rest)"
  by (induction s) (simp_all add: parse_chars_escape js_def del: parse_chars.simps(2), simp)

lemma parse_chars_quote:
  "quote_string s @ rest = CHR 0x22 # t \<Longrightarrow> parse_chars t = Some (js s, rest)"
  by (clarsimp simp: quote_string_def parse_chars_escaped)

lemma is_digit_digit_char: "is_digit (digit_char n)"
  by (simp add: is_digit_def less_eq_char_def of_char_digit_char)

lemma digit_val_digit_char: "digit_val (digit_char n) = n mod 10"
  by (simp add: digit_val_def of_char_digit_char)

lemma digit_char_zero_iff: "digit_char n = CHR ''0'' \<longleftrightarrow> n mod 10 = 0"
proof -
  have "CHR ''0'' = digit_char 0" by (simp add: digit_char_def)
  then show ?thesis by (simp add: digit_char_eq)
qed

lemma decimal_nonempty: "decimal n \<noteq> []"
  by (subst decimal.simps) simp

lemma decimal_digits: "\<forall>c\<in>set (decimal n). is_digit c"
proof (induction n rule: decimal.induct)
  case (1 n)
  show ?case
  proof (cases "n < 10")
    case True
    then show ?thesis by (subst decimal.simps) (simp add: is_digit_digit_char)
  next
    case False
    then show ?thesis using 1 by (subst decimal.simps) (simp add: is_digit_digit_char)
  qed
qed

lemma digits_val_snoc: "digits_val (ds @ [c]) = 10 * digits_val ds + digit_val c"
  by (simp add: digits_val_def)

lemma digits_val_decimal: "digits_val (decimal n) = n"
proof (induction n rule: decimal.induct)
  case (1 n)
  show ?case
  proof (cases "n < 10")
    case True
    then show ?thesis
      by (subst decimal.simps) (simp add: digits_val_def digit_val_digit_char)
  next
    case False
    then have "digits_val (decimal (n div 10)) = n div 10" using 1 by simp
    then show ?thesis using False
      by (subst decimal.simps) (simp add: digits_val_snoc digit_val_digit_char)
  qed
qed

lemma hd_decimal_zero: "hd (decimal n) = CHR ''0'' \<Longrightarrow> n = 0"
proof (induction n rule: decimal.induct)
  case (1 n)
  show ?case
  proof (cases "n < 10")
    case True
    then have "decimal n = [digit_char n]" by (subst decimal.simps) simp
    then show ?thesis using "1.prems" True by (simp add: digit_char_zero_iff)
  next
    case False
    then have "decimal n = decimal (n div 10) @ [digit_char n]" by (subst decimal.simps) simp
    then have "hd (decimal n) = hd (decimal (n div 10))" by (simp add: decimal_nonempty)
    then have "n div 10 = 0" using 1 False by simp
    then show ?thesis using False by simp
  qed
qed

lemma decimal_zero: "decimal 0 = ''0''"
  by (subst decimal.simps) (simp add: digit_char_def)

lemma no_leading_zero: "\<not> (hd (decimal n) = CHR ''0'' \<and> 1 < length (decimal n))"
  using hd_decimal_zero [of n] by (auto simp: decimal_zero)

lemma hd_decimal_digit: "is_digit (hd (decimal n))"
  using decimal_digits [of n] decimal_nonempty [of n] by (cases "decimal n") simp_all

lemma takeWhile_decimal:
  "\<not> is_digit c \<Longrightarrow> takeWhile is_digit (decimal n @ c # r) = decimal n"
  using decimal_digits [of n] by (simp add: takeWhile_append2)

lemma dropWhile_decimal:
  "\<not> is_digit c \<Longrightarrow> dropWhile is_digit (decimal n @ c # r) = c # r"
  using decimal_digits [of n] by (simp add: dropWhile_append2)

lemma parse_fraction_none: "c \<noteq> CHR ''.'' \<Longrightarrow> parse_fraction (c # r) = Some (0, c # r)"
  by (simp add: parse_fraction_def)

lemma parse_exponent_none:
  "c \<noteq> CHR ''e'' \<Longrightarrow> c \<noteq> CHR ''E'' \<Longrightarrow> parse_exponent (c # r) = Some (0, c # r)"
  by (simp add: parse_exponent_def)

lemma parse_number_decimal:
  assumes "\<not> is_digit c" "c \<noteq> CHR ''.''" "c \<noteq> CHR ''e''" "c \<noteq> CHR ''E''"
  shows "parse_number (decimal n @ c # r) = Some (of_nat n, c # r)"
proof -
  have "hd (decimal n) \<noteq> CHR ''-''"
    using hd_decimal_digit [of n] by (auto simp: is_digit_def)
  then have neg: "\<not> (decimal n @ c # r \<noteq> [] \<and> hd (decimal n @ c # r) = CHR ''-'')"
    by (simp add: decimal_nonempty)
  show ?thesis
    unfolding parse_number_def Let_def
    using neg assms no_leading_zero [of n]
    by (simp add: takeWhile_decimal dropWhile_decimal decimal_nonempty digits_val_decimal
        parse_fraction_none parse_exponent_none)
qed

lemma parse_number_negative:
  assumes "\<not> is_digit c" "c \<noteq> CHR ''.''" "c \<noteq> CHR ''e''" "c \<noteq> CHR ''E''"
  shows "parse_number (CHR ''-'' # decimal n @ c # r) = Some (- of_nat n, c # r)"
  unfolding parse_number_def Let_def
  using assms no_leading_zero [of n]
  by (simp add: takeWhile_decimal dropWhile_decimal decimal_nonempty digits_val_decimal
      parse_fraction_none parse_exponent_none)

lemma parse_number_to_string:
  assumes "\<not> is_digit c" "c \<noteq> CHR ''.''" "c \<noteq> CHR ''e''" "c \<noteq> CHR ''E''"
  shows "parse_number (number_to_string i @ c # r) = Some (of_int i, c # r)"
proof (cases "i < 0")
  case True
  then have "(of_int i :: rat) = - of_nat (nat (- i))" by simp
  then show ?thesis using True parse_number_negative [OF assms, of "nat (- i)" r]
    by (simp add: number_to_string_def)
next
  case False
  then have "(of_int i :: rat) = of_nat (nat i)" by simp
  then show ?thesis using False parse_number_decimal [OF assms, of "nat i" r]
    by (simp add: number_to_string_def)
qed

lemma skip_ws_start: "\<not> is_ws c \<Longrightarrow> skip_ws (c # cs) = c # cs"
  by simp

lemma digit_not_special:
  assumes "c = CHR ''-'' \<or> is_digit c"
  shows "\<not> is_ws c" "c \<noteq> CHR ''[''" "c \<noteq> CHR ''{''" "c \<noteq> CHR 0x22"
  using assms by (auto simp: is_digit_def is_ws_def)

lemma parse_value_number:
  assumes "c = CHR ''-'' \<or> is_digit c"
  shows "parse_value (Suc n) (c # cs) =
     (case parse_number (c # cs) of None \<Rightarrow> SyntaxError | Some (x, rest) \<Rightarrow> Parsed (JNum x) rest)"
  using assms digit_not_special [OF assms] by (simp add: parse_value.simps)

lemma parse_value_string:
  "parse_value (Suc n) (CHR 0x22 # cs) =
     (case parse_chars cs of None \<Rightarrow> SyntaxError | Some (ws, rest) \<Rightarrow> Parsed (JStr ws) rest)"
  by (simp add: parse_value.simps is_ws_def)

lemma parse_value_quoted:
  "parse_value (Suc n) (quote_string s @ rest) = Parsed (JStr (js s)) rest"
proof -
  have q: "quote_string s @ rest = CHR 0x22 # (concat (map escape_char s) @ CHR 0x22 # rest)"
    by (simp add: quote_string_def)
  show ?thesis unfolding q parse_value_string by (simp add: parse_chars_escaped)
qed

lemma number_to_string_start:
  "\<exists>h t. number_to_string i = h # t \<and> (h = CHR ''-'' \<or> is_digit h)"
proof (cases "i < 0")
  case True
  then show ?thesis by (simp add: number_to_string_def)
next
  case False
  obtain h t where d: "decimal (nat i) = h # t"
    using decimal_nonempty [of "nat i"] by (cases "decimal (nat i)") auto
  then have "is_digit h" using hd_decimal_digit [of "nat i"] by simp
  then show ?thesis using False d by (simp add: number_to_string_def)
qed

lemma parse_value_count:
  assumes "\<not> is_digit c" "c \<noteq> CHR ''.''" "c \<noteq> CHR ''e''" "c \<noteq> CHR ''E''"
  shows "parse_value (Suc n) (number_to_string i @ c # r) = Parsed (JNum (of_int i)) (c # r)"
proof -
  obtain h t where h: "number_to_string i = h # t" "h = CHR ''-'' \<or> is_digit h"
    using number_to_string_start by blast
  have "parse_value (Suc n) (h # (t @ c # r)) =
      (case parse_number (h # (t @ c # r)) of None \<Rightarrow> SyntaxError
       | Some (x, rest) \<Rightarrow> Parsed (JNum x) rest)"
    using h(2) by (rule parse_value_number)
  moreover have "parse_number (h # (t @ c # r)) = Some (of_int i, c # r)"
    using parse_number_to_string [OF assms, of i r] h(1) by simp
  ultimately show ?thesis using h(1) by simp
qed

lemma parse_members_step:
  "parse_members (Suc n) (quote_string k @ CHR '':'' # s) =
     (case parse_value n s of
        Parsed v r \<Rightarrow>
          (case skip_ws r of
             [] \<Rightarrow> SyntaxError
           | c # r' \<Rightarrow>
               if c = CHR '','' then
                 (case parse_members n r' of
                    Parsed ms rest \<Rightarrow> Parsed ((js k, v) # ms) rest
                  | SyntaxError \<Rightarrow> SyntaxError
                  | OutOfFuel \<Rightarrow> OutOfFuel)
               else if c = CHR ''}'' then Parsed [(js k, v)] r'
               else SyntaxError)
      | SyntaxError \<Rightarrow> SyntaxError
      | OutOfFuel \<Rightarrow> OutOfFuel)"
proof -
  have q: "quote_string k @ CHR '':'' # s =
      CHR 0x22 # (concat (map escape_char k) @ CHR 0x22 # CHR '':'' # s)"
    by (simp add: quote_string_def)
  show ?thesis
    unfolding q by (simp add: parse_members.simps is_ws_def parse_chars_escaped)
qed

lemma not_digit_brace:
  "\<not> is_digit CHR ''}''" "CHR ''}'' \<noteq> CHR ''.''" "CHR ''}'' \<noteq> CHR ''e''" "CHR ''}'' \<noteq> CHR ''E''"
  by (simp_all add: is_digit_def)

lemma parse_members_entry:
  "parse_members (Suc (Suc (Suc n)))
     (quote_string ''date'' @ CHR '':'' # quote_string d @ CHR '','' #
      quote_string ''count'' @ CHR '':'' # number_to_string i @ CHR ''}'' # rest) =
   Parsed [(js ''date'', JStr (js d)), (js ''count'', JNum (of_int i))] rest"
proof -
  have count: "parse_members (Suc (Suc n))
      (quote_string ''count'' @ CHR '':'' # number_to_string i @ CHR ''}'' # rest) =
      Parsed [(js ''count'', JNum (of_int i))] rest"
    unfolding parse_members_step parse_value_count [OF not_digit_brace]
    by (simp add: is_ws_def)
  have "parse_value (Suc (Suc n)) (quote_string d @ CHR '','' #
      quote_string ''count'' @ CHR '':'' # number_to_string i @ CHR ''}'' # rest) =
      Parsed (JStr (js d)) (CHR '','' #
      quote_string ''count'' @ CHR '':'' # number_to_string i @ CHR ''}'' # rest)"
    by (rule parse_value_quoted)
  then show ?thesis
    unfolding parse_members_step by (simp add: is_ws_def count)
qed

lemma parse_value_entry:
  "parse_value (Suc (Suc (Suc (Suc n)))) (stringify_entry e @ rest) = Parsed (entry_value e) rest"
proof -
  have t: "stringify_entry e @ rest =
     CHR ''{'' # (quote_string ''date'' @ CHR '':'' # quote_string (date e) @ CHR '','' #
      quote_string ''count'' @ CHR '':'' # number_to_string (count e) @ CHR ''}'' # rest)"
    by (simp add: stringify_entry_def)
  have s: "skip_ws (quote_string ''date'' @ x) = CHR 0x22 # tl (quote_string ''date'' @ x)" for x
    by (simp add: quote_string_def is_ws_def)
  have m: "make_object [(js ''date'', JStr (js (date e))), (js ''count'', JNum (of_int (count e)))] =
      entry_value e"
    by (simp add: make_object_def entry_value_def js_def)
  show ?thesis
    unfolding t
    by (subst parse_value.simps) (simp add: is_ws_def s parse_members_entry m)
qed

lemma join_comma_Cons:
  "es \<noteq> [] \<Longrightarrow> join_comma (x # es) = x @ CHR '','' # join_comma es"
  by (cases es) simp_all

lemma parse_value_entry_ge:
  assumes "4 \<le> m"
  shows "parse_value m (stringify_entry e @ rest) = Parsed (entry_value e) rest"
proof -
  obtain n where m: "m = 4 + n" using assms le_Suc_ex by blast
  have "4 + n = Suc (Suc (Suc (Suc n)))" by simp
  then show ?thesis unfolding m by (simp only: parse_value_entry)
qed

lemma parse_elements_entries:
  "es \<noteq> [] \<Longrightarrow>
   parse_elements (length es + 4 + n) (join_comma (map stringify_entry es) @ CHR '']'' # rest) =
     Parsed (map entry_value es) rest"
proof (induction es rule: list_nonempty_induct)
  case (single e)
  have f: "length [e] + 4 + n = Suc (4 + n)" by simp
  have v: "parse_value (4 + n) (stringify_entry e @ CHR '']'' # rest) =
      Parsed (entry_value e) (CHR '']'' # rest)"
    by (rule parse_value_entry_ge) simp
  show ?case
    unfolding f
    by (subst parse_elements.simps) (simp add: v is_ws_def)
next
  case (cons e es)
  let ?tail = "join_comma (map stringify_entry es) @ CHR '']'' # rest"
  have f: "length (e # es) + 4 + n = Suc (length es + 4 + n)" by simp
  have t: "join_comma (map stringify_entry (e # es)) @ CHR '']'' # rest =
      stringify_entry e @ CHR '','' # ?tail"
    using cons.hyps by (simp add: join_comma_Cons)
  have v: "parse_value (length es + 4 + n) (stringify_entry e @ CHR '','' # ?tail) =
      Parsed (entry_value e) (CHR '','' # ?tail)"
    by (rule parse_value_entry_ge) simp
  show ?case
    unfolding f t
    by (subst parse_elements.simps) (simp add: v is_ws_def cons.IH)
qed

lemma length_join_comma: "length es \<le> length (join_comma (map stringify_entry es))"
proof (induction es)
  case Nil
  then show ?case by simp
next
  case (Cons e es)
  have "1 \<le> length (stringify_entry e)" by (simp add: stringify_entry_def)
  then show ?case using Cons by (cases es) simp_all
qed

lemma join_comma_start:
  "es \<noteq> [] \<Longrightarrow> \<exists>t. join_comma (map stringify_entry es) = CHR ''{'' # t"
proof (cases es)
  case Nil
  then show "es \<noteq> [] \<Longrightarrow> ?thesis" by simp
next
  case (Cons e es')
  then show ?thesis by (cases es') (simp_all add: stringify_entry_def)
qed

lemma JSON_parse_stringify: "JSON_parse (JSON_stringify H) = Some (history_value H)"
proof (cases "H = []")
  case True
  have "parse_value (Suc 4) ''[]'' = Parsed (JArr []) []"
    by (subst parse_value.simps) (simp add: is_ws_def)
  then show ?thesis using True
    by (simp add: JSON_parse_def JSON_stringify_def history_value_def)
next
  case False
  let ?body = "join_comma (map stringify_entry H)"
  obtain t where t: "?body = CHR ''{'' # t" using join_comma_start [OF False] by blast
  have len: "length H + 4 \<le> 2 * length (JSON_stringify H)"
    using length_join_comma [of H] by (simp add: JSON_stringify_def)
  then obtain n where n: "2 * length (JSON_stringify H) = length H + 4 + n"
    using le_Suc_ex by blast
  have e: "parse_elements (2 * length (JSON_stringify H)) (?body @ CHR '']'' # []) =
      Parsed (map entry_value H) []"
    unfolding n using False by (rule parse_elements_entries)
  have s: "skip_ws (?body @ '']'') = CHR ''{'' # t @ '']''"
    unfolding t by (simp add: is_ws_def)
  have "parse_value (Suc (2 * length (JSON_stringify H))) (CHR ''['' # ?body @ '']'') =
      Parsed (JArr (map entry_value H)) []"
    by (subst parse_value.simps) (simp add: is_ws_def s e)
  then show ?thesis
    by (simp add: JSON_parse_def JSON_stringify_def [of H, symmetric] history_value_def
        JSON_stringify_def [of H] del: parse_value.simps)
qed

lemma JSON_parse_empty: "JSON_parse [] = None"
  by (simp add: JSON_parse_def parse_value.simps)

lemma JSON_stringify_nonempty: "JSON_stringify H \<noteq> []"
  by (simp add: JSON_stringify_def)

lemma load_stringify:
  "st ''jobApplicationHistory'' = Some (JSON_stringify H) \<Longrightarrow>
   load True st = Some (history_value H)"
  by (simp add: load_def JSON_parse_stringify JSON_stringify_nonempty)

lemma is_history_history_value: "is_history (history_value H)"
  by (simp add: is_history_def history_value_def list_all_iff is_entry_def entry_value_def js_def)




text \<open>
  What the load effect gives, case by case: the empty history when nothing is stored,
  when the stored text is empty and when it is not JSON (the \<open>catch\<close>); the history for
  the text that \<open>JSON.stringify\<close> makes of one.
\<close>

lemma load_fallback:
  "(st ''jobApplicationHistory'' = None \<longrightarrow> load True st = Some (JArr [])) \<and>
   (st ''jobApplicationHistory'' = Some [] \<longrightarrow> load True st = Some (JArr [])) \<and>
   (st ''jobApplicationHistory'' = Some s \<and> JSON_parse s = None \<longrightarrow>
      load True st = Some (JArr [])) \<and>
   (st ''jobApplicationHistory'' = Some (JSON_stringify H) \<longrightarrow>
      load True st = Some (history_value H))"
proof -
  have b: "st ''jobApplicationHistory'' = None \<Longrightarrow> load True st = Some (JArr [])"
    by (simp add: load_def)
  have b': "st ''jobApplicationHistory'' = Some [] \<Longrightarrow> load True st = Some (JArr [])"
    by (simp add: load_def)
  have c: "st ''jobApplicationHistory'' = Some s \<Longrightarrow> JSON_parse s = None \<Longrightarrow>
      load True st = Some (JArr [])"
    by (simp add: load_def)
  show ?thesis using b b' c load_stringify [of st H] by blast
qed

lemma JSON_parse_null: "JSON_parse ''null'' = Some JNull"
proof -
  have "parse_value (Suc 8) ''null'' = Parsed JNull []"
    by (subst parse_value.simps) (simp add: is_ws_def is_digit_def)
  then show ?thesis by (simp add: JSON_parse_def)
qed

text \<open>
  C4 on the code, at the stored text \<open>null\<close>. The text is JSON and denotes no history.
  The claim has the load effect give the empty history; the effect gives \<open>null\<close> to
  \<open>setHistory\<close>, a value on which the \<open>some\<close> of the ensure-today updater cannot be
  called.
\<close>

theorem load_null_not_validated:
  "JSON_parse ''null'' = Some JNull \<and> \<not> is_history JNull \<and>
   load True [''jobApplicationHistory'' \<mapsto> ''null''] = Some JNull \<and>
   JNull \<noteq> JArr [] \<and> \<not> has_some_method JNull"
  by (simp add: JSON_parse_null load_def is_history_def has_some_method_def)

end
